theory Spec2Isabelle
  imports Main
begin

section \<open>The UCI tree of types.go\<close>

text \<open>
  A \<open>*Section\<close> and a \<open>*Option\<close> of the Go code are references into a store; the code
  compares sections by pointer (\<open>sec == s\<close> in \<open>index\<close>) and mutates options through
  pointers shared between sections, so both kinds of object live in the store and the
  slices of the structs hold references. A reference is always valid: the nil pointer
  is represented only where the code returns it (\<open>Get\<close>, \<open>getUnnamed\<close>), as \<open>None\<close>.
  Slices are lists, Go's \<open>int\<close> is an unbounded integer (every counter of the code is
  bounded by the length of a slice, so it never wraps), and a string is its list of
  bytes.
\<close>

type_synonym ref = nat

text \<open>
  Modelled from the spec: \<open>OptionType\<close>, \<open>TypeOption\<close> and \<open>TypeList\<close> are declared outside
  types.go; the spec gives an option's type as one of \<open>TypeOption\<close> or \<open>TypeList\<close>.
\<close>

datatype OptionType = TypeOption | TypeList

record Option =
  Name :: string
  Values :: "string list"
  Type :: OptionType

record Section =
  Name :: string
  Type :: string
  Options :: "ref list"

record Config =
  Name :: string
  Sections :: "ref list"
  tainted :: bool

record store =
  sections :: "ref \<Rightarrow> Section"
  options :: "ref \<Rightarrow> Option"

text \<open>The error values of the package, and the ways in which its code panics.\<close>

datatype NumError = ErrSyntax | ErrRange

datatype error =
    ErrImplausibleSectionSelector
  | ErrMustStartWithAt
  | ErrMultipleAtSigns
  | ErrMultipleOpenBrackets
  | ErrMultipleCloseBrackets
  | ErrInvalidSectionSelector
  | ErrIndexNotNumeric NumError
  | ErrUnnamedIndexOutOfBounds

datatype panic = NotReached | IndexOutOfRange | RegexpCompile

section \<open>The library functions the code calls\<close>

text \<open>
  \<open>strconv.Atoi\<close> on a 64-bit platform: an optional sign, then one or more decimal
  digits. A syntax error returns 0, a value outside \<open>int\<close> returns the nearest bound;
  both return the error beside the value.
\<close>

definition isDigit :: "char \<Rightarrow> bool" where
  "isDigit ch = (48 \<le> (of_char ch :: nat) \<and> (of_char ch :: nat) \<le> 57)"

fun parseDigits :: "nat \<Rightarrow> string \<Rightarrow> nat" where
  "parseDigits n [] = n"
| "parseDigits n (ch # s) = parseDigits (n * 10 + (of_char ch - 48)) s"

definition maxInt :: int where
  "maxInt = 2 ^ 63 - 1"

definition minInt :: int where
  "minInt = - (2 ^ 63)"

definition parseSigned :: "bool \<Rightarrow> string \<Rightarrow> int \<times> NumError option" where
  "parseSigned neg s =
     (if s \<noteq> [] \<and> list_all isDigit s then
        (let v = (if neg then - int (parseDigits 0 s) else int (parseDigits 0 s)) in
         if maxInt < v then (maxInt, Some ErrRange)
         else if v < minInt then (minInt, Some ErrRange)
         else (v, None))
      else (0, Some ErrSyntax))"

fun Atoi :: "string \<Rightarrow> int \<times> NumError option" where
  "Atoi [] = (0, Some ErrSyntax)"
| "Atoi (ch # s) =
     (if ch = CHR ''-'' then parseSigned True s
      else if ch = CHR ''+'' then parseSigned False s
      else parseSigned False (ch # s))"

text \<open>\<open>strconv.Itoa\<close>, which is also what \<open>%d\<close> prints.\<close>

definition digitChar :: "nat \<Rightarrow> char" where
  "digitChar d = char_of (48 + d)"

fun formatDigits :: "nat \<Rightarrow> string" where
  "formatDigits n =
     (if 10 \<le> n then formatDigits (n div 10) @ [digitChar (n mod 10)] else [digitChar n])"

definition Itoa :: "int \<Rightarrow> string" where
  "Itoa i = (if i < 0 then CHR ''-'' # formatDigits (nat (- i)) else formatDigits (nat i))"

text \<open>\<open>strings.HasPrefix\<close> and the slice expression \<open>s[lo:hi]\<close>.\<close>

definition HasPrefix :: "string \<Rightarrow> string \<Rightarrow> bool" where
  "HasPrefix s p = (take (length p) s = p)"

definition slice :: "nat \<Rightarrow> nat \<Rightarrow> 'a list \<Rightarrow> 'a list" where
  "slice lo hi s = drop lo (take hi s)"

text \<open>
  The package \<open>regexp\<close> is a parameter of the model: \<open>re expr\<close> is \<open>None\<close> when
  \<open>regexp.MustCompile expr\<close> panics, and otherwise \<open>Some m\<close> with \<open>m name\<close> the result of
  \<open>MatchString name\<close> on the compiled expression.
\<close>

type_synonym regexp = "string \<Rightarrow> (string \<Rightarrow> bool) option"

section \<open>Options\<close>

definition AddValue :: "Option \<Rightarrow> string \<Rightarrow> Option" where
  "AddValue o' v = o'\<lparr>Values := Values o' @ [v]\<rparr>"

text \<open>
  \<open>MergeValues\<close> fills the set \<open>have\<close> from the option's values once, before its second
  loop, and does not change it afterwards.
\<close>

fun MergeValues_loop :: "string set \<Rightarrow> Option \<Rightarrow> string list \<Rightarrow> Option" where
  "MergeValues_loop have o' [] = o'"
| "MergeValues_loop have o' (v # vs) =
     (if v \<in> have then MergeValues_loop have o' vs
      else MergeValues_loop have (AddValue o' v) vs)"

definition MergeValues :: "Option \<Rightarrow> string list \<Rightarrow> Option" where
  "MergeValues o' vs = MergeValues_loop (set (Values o')) o' vs"

section \<open>Sections\<close>

fun findOption :: "store \<Rightarrow> string \<Rightarrow> ref list \<Rightarrow> ref option" where
  "findOption st name [] = None"
| "findOption st name (opt # opts) =
     (if Option.Name (options st opt) = name then Some opt else findOption st name opts)"

definition Section_Add :: "store \<Rightarrow> ref \<Rightarrow> ref \<Rightarrow> store" where
  "Section_Add st s o' =
     st\<lparr>sections := (sections st)
        (s := (sections st s)\<lparr>Options := Options (sections st s) @ [o']\<rparr>)\<rparr>"

definition Section_Merge :: "store \<Rightarrow> ref \<Rightarrow> ref \<Rightarrow> store" where
  "Section_Merge st s o' =
     (case findOption st (Option.Name (options st o')) (Options (sections st s)) of
        Some opt \<Rightarrow>
          st\<lparr>options := (options st)
             (opt := MergeValues (options st opt) (Values (options st o')))\<rparr>
      | None \<Rightarrow> Section_Add st s o')"

text \<open>The first position of a list at which a test holds, or the length of the list.\<close>

fun firstIndex :: "('a \<Rightarrow> bool) \<Rightarrow> 'a list \<Rightarrow> nat" where
  "firstIndex P [] = 0"
| "firstIndex P (x # xs) = (if P x then 0 else Suc (firstIndex P xs))"

text \<open>\<open>append(xs[:i], xs[i+1:]...)\<close>, for \<open>i\<close> below the length.\<close>

definition removeAt :: "nat \<Rightarrow> 'a list \<Rightarrow> 'a list" where
  "removeAt i xs = take i xs @ drop (Suc i) xs"

definition Section_Del :: "store \<Rightarrow> ref \<Rightarrow> string \<Rightarrow> store \<times> bool" where
  "Section_Del st s name =
     (let opts = Options (sections st s);
          i = firstIndex (\<lambda>opt. Option.Name (options st opt) = name) opts
      in if i = length opts then (st, False)
         else (st\<lparr>sections := (sections st)
                 (s := (sections st s)\<lparr>Options := removeAt i opts\<rparr>)\<rparr>, True))"

definition Section_Get :: "store \<Rightarrow> ref \<Rightarrow> string \<Rightarrow> ref option" where
  "Section_Get st s name = findOption st name (Options (sections st s))"

section \<open>Section selectors\<close>

text \<open>
  The loop of \<open>unmangleSectionName\<close> ranges over the runes of the name with their byte
  positions. It compares a rune only with \<open>@\<close>, \<open>[\<close> and \<open>]\<close>; a byte below 128 is always
  a rune of its own at its own position and no other rune is equal to one of the three,
  so the loop over the bytes takes the same branches. \<open>scanBrackets ket i bra rs\<close> is the
  loop at position \<open>i\<close> with \<open>rs\<close> still to read; it returns the final \<open>bra\<close>.
\<close>

fun scanBrackets :: "nat \<Rightarrow> nat \<Rightarrow> nat \<Rightarrow> string \<Rightarrow> error + nat" where
  "scanBrackets ket i bra [] = Inr bra"
| "scanBrackets ket i bra (r # rs) =
     (if i \<noteq> 0 \<and> r = CHR ''@'' then Inl ErrMultipleAtSigns
      else if r = CHR ''['' \<and> 0 < bra then Inl ErrMultipleOpenBrackets
      else if r = CHR '']'' \<and> i \<noteq> ket then Inl ErrMultipleCloseBrackets
      else if r = CHR ''['' then scanBrackets ket (Suc i) i rs
      else scanBrackets ket (Suc i) bra rs)"

text \<open>
  The three results of \<open>unmangleSectionName\<close> are returned together, as in the code:
  \<open>Config.Del\<close> reads the index and drops the error.
\<close>

definition unmangleSectionName :: "string \<Rightarrow> string \<times> int \<times> error option" where
  "unmangleSectionName name =
     (let l = length name in
      if l < 5 then ([], 0, Some ErrImplausibleSectionSelector)
      else if name ! 0 \<noteq> CHR ''@'' then ([], 0, Some ErrMustStartWithAt)
      else
        (case scanBrackets (l - 1) 0 0 name of
           Inl err \<Rightarrow> ([], 0, Some err)
         | Inr bra \<Rightarrow>
             if bra = 0 \<or> l - 1 \<le> bra then ([], 0, Some ErrInvalidSectionSelector)
             else
               (case Atoi (slice (bra + 1) (l - 1) name) of
                  (index, err) \<Rightarrow> (slice 1 bra name, index, map_option ErrIndexNotNumeric err))))"

definition Num2PlaceholderSection :: "string \<Rightarrow> int \<Rightarrow> string" where
  "Num2PlaceholderSection sectionType num =
     concat [''@'', sectionType, ''['', Itoa num, '']'']"

definition placeholderExpr :: "string \<Rightarrow> string" where
  "placeholderExpr secType =
     concat [''^@'', secType, [CHR 0x5C] @ ''[('' @ [CHR 0x5C] @ ''d+)'' @ [CHR 0x5C] @ '']$'']"

definition IsPlaceholderName :: "regexp \<Rightarrow> string \<Rightarrow> string \<Rightarrow> panic + bool" where
  "IsPlaceholderName re name secType =
     (case re (placeholderExpr secType) of
        None \<Rightarrow> Inl RegexpCompile
      | Some m \<Rightarrow> Inr (m name))"

section \<open>Configs\<close>

fun getNamed_loop :: "store \<Rightarrow> string \<Rightarrow> ref list \<Rightarrow> ref option" where
  "getNamed_loop st name [] = None"
| "getNamed_loop st name (sec # secs) =
     (if Section.Name (sections st sec) = name then Some sec else getNamed_loop st name secs)"

definition getNamed :: "store \<Rightarrow> Config \<Rightarrow> string \<Rightarrow> ref option" where
  "getNamed st c name = getNamed_loop st name (Sections c)"

fun count_loop :: "store \<Rightarrow> string \<Rightarrow> int \<Rightarrow> ref list \<Rightarrow> int" where
  "count_loop st typ n [] = n"
| "count_loop st typ n (sec # secs) =
     count_loop st typ (if Section.Type (sections st sec) = typ then n + 1 else n) secs"

definition count :: "store \<Rightarrow> Config \<Rightarrow> string \<Rightarrow> int" where
  "count st c typ = count_loop st typ 0 (Sections c)"

fun getUnnamed_loop :: "store \<Rightarrow> string \<Rightarrow> int \<Rightarrow> int \<Rightarrow> ref list \<Rightarrow> ref option" where
  "getUnnamed_loop st typ idx n [] = None"
| "getUnnamed_loop st typ idx n (sec # secs) =
     (if Section.Type (sections st sec) = typ then
        (if idx = n then Some sec else getUnnamed_loop st typ idx (n + 1) secs)
      else getUnnamed_loop st typ idx n secs)"

definition getUnnamed :: "store \<Rightarrow> Config \<Rightarrow> string \<Rightarrow> ref option \<times> error option" where
  "getUnnamed st c name =
     (case unmangleSectionName name of
        (typ, idx, Some err) \<Rightarrow> (None, Some err)
      | (typ, idx, None) \<Rightarrow>
          (let cnt = count st c typ in
           if idx < - cnt \<or> cnt \<le> idx then (None, Some ErrUnnamedIndexOutOfBounds)
           else (getUnnamed_loop st typ (if idx < 0 then idx + cnt else idx) 0 (Sections c), None)))"

definition Config_Get :: "store \<Rightarrow> Config \<Rightarrow> string \<Rightarrow> ref option" where
  "Config_Get st c name =
     (if HasPrefix name ''@'' then fst (getUnnamed st c name) else getNamed st c name)"

definition Config_Add :: "Config \<Rightarrow> ref \<Rightarrow> Config \<times> ref" where
  "Config_Add c s = (c\<lparr>Sections := Sections c @ [s]\<rparr>, s)"

fun index_loop :: "store \<Rightarrow> ref \<Rightarrow> int \<Rightarrow> ref list \<Rightarrow> panic + int" where
  "index_loop st s i [] = Inl NotReached"
| "index_loop st s i (sec # secs) =
     (if sec = s then Inr i
      else index_loop st s
             (if Section.Type (sections st sec) = Section.Type (sections st s) then i + 1 else i)
             secs)"

definition index :: "store \<Rightarrow> Config \<Rightarrow> ref \<Rightarrow> panic + int" where
  "index st c s = index_loop st s 0 (Sections c)"

definition sectionName :: "store \<Rightarrow> Config \<Rightarrow> ref \<Rightarrow> panic + string" where
  "sectionName st c s =
     (if Section.Name (sections st s) \<noteq> [] then Inr (Section.Name (sections st s))
      else
        (case index st c s of
           Inl p \<Rightarrow> Inl p
         | Inr i \<Rightarrow> Inr (concat [''@'', Section.Type (sections st s), ''['', Itoa i, '']''])))"

text \<open>
  The first loop of \<open>Config.Merge\<close>: the section of the config that the incoming section
  \<open>s\<close> is merged into, if there is one. Both names are computed anew in every round.
\<close>

fun Merge_loop :: "store \<Rightarrow> Config \<Rightarrow> ref \<Rightarrow> ref list \<Rightarrow> panic + ref option" where
  "Merge_loop st c s [] = Inr None"
| "Merge_loop st c s (sec # secs) =
     (case sectionName st c s of
        Inl p \<Rightarrow> Inl p
      | Inr sname \<Rightarrow>
          (case sectionName st c sec of
             Inl p \<Rightarrow> Inl p
           | Inr cname \<Rightarrow> if sname = cname then Inr (Some sec) else Merge_loop st c s secs))"

fun Merge_options :: "store \<Rightarrow> ref \<Rightarrow> ref list \<Rightarrow> store" where
  "Merge_options st sec [] = st"
| "Merge_options st sec (o' # os) = Merge_options (Section_Merge st sec o') sec os"

definition Config_Merge :: "store \<Rightarrow> Config \<Rightarrow> ref \<Rightarrow> panic + store \<times> Config \<times> ref" where
  "Config_Merge st c s =
     (case Merge_loop st c s (Sections c) of
        Inl p \<Rightarrow> Inl p
      | Inr None \<Rightarrow> Inr (st, Config_Add c s)
      | Inr (Some sec) \<Rightarrow> Inr (Merge_options st sec (Options (sections st s)), c, sec))"

text \<open>A Go map from strings to integers; a key that is absent reads as 0.\<close>

definition mapGet :: "(string \<rightharpoonup> int) \<Rightarrow> string \<Rightarrow> int" where
  "mapGet m k = (case m k of None \<Rightarrow> 0 | Some v \<Rightarrow> v)"

text \<open>
  The loop of \<open>Config.Del\<close>: the position at which it stops, which is the length of the
  slice when it never breaks.
\<close>

fun Del_loop ::
  "regexp \<Rightarrow> store \<Rightarrow> string \<Rightarrow> (string \<rightharpoonup> int) \<Rightarrow> nat \<Rightarrow> ref list \<Rightarrow> panic + nat" where
  "Del_loop re st name indexs i [] = Inr i"
| "Del_loop re st name indexs i (sec # secs) =
     (let typ = Section.Type (sections st sec) in
      case IsPlaceholderName re name typ of
        Inl p \<Rightarrow> Inl p
      | Inr True \<Rightarrow>
          (let index = fst (snd (unmangleSectionName name));
               indexs1 = (if indexs typ = None then indexs(typ \<mapsto> 0) else indexs)
           in if index = mapGet indexs1 typ then Inr i
              else if Section.Name (sections st sec) = name then Inr i
              else Del_loop re st name (indexs1(typ \<mapsto> mapGet indexs1 typ + 1)) (Suc i) secs)
      | Inr False \<Rightarrow>
          if Section.Name (sections st sec) = name then Inr i
          else Del_loop re st name indexs (Suc i) secs)"

definition Config_Del :: "regexp \<Rightarrow> store \<Rightarrow> Config \<Rightarrow> string \<Rightarrow> panic + Config" where
  "Config_Del re st c name =
     (case Del_loop re st name Map.empty 0 (Sections c) of
        Inl p \<Rightarrow> Inl p
      | Inr i \<Rightarrow>
          Inr (if i < length (Sections c) then c\<lparr>Sections := removeAt i (Sections c)\<rparr> else c))"

section \<open>The writer\<close>








section \<open>Notions of the specification\<close>

text \<open>
  A type that can stand in a selector \<open>@type[index]\<close>: one or more characters, none of
  them \<open>@\<close>, \<open>[\<close> or \<open>]\<close>.
\<close>

definition selectorChar :: "char \<Rightarrow> bool" where
  "selectorChar ch = (ch \<noteq> CHR ''@'' \<and> ch \<noteq> CHR ''['' \<and> ch \<noteq> CHR '']'')"

definition selectorType :: "string \<Rightarrow> bool" where
  "selectorType T = (T \<noteq> [] \<and> list_all selectorChar T)"

text \<open>The sections of a given type, in declaration order.\<close>

definition sectionsOfType :: "store \<Rightarrow> string \<Rightarrow> ref list \<Rightarrow> ref list" where
  "sectionsOfType st T secs = filter (\<lambda>sec. Section.Type (sections st sec) = T) secs"










section \<open>A regexp for types without metacharacters\<close>

text \<open>
  What package \<open>regexp\<close> does with the expressions \<open>^@T\[(\d+)\]$\<close> in which \<open>T\<close> has
  bytes below 128 only and none of the metacharacters of the syntax: there \<open>T\<close> stands
  for itself, \<open>\d\<close> is a digit from 0 to 9 and \<open>$\<close> is the end of the text. Every other
  expression is refused by this instance.
\<close>

definition regexpMeta :: "char list" where
  "regexpMeta = CHR 0x5C # ''.+*?()|[]{}^$''"

definition literalType :: "string \<Rightarrow> bool" where
  "literalType T = list_all (\<lambda>ch. ch \<notin> set regexpMeta \<and> (of_char ch :: nat) < 128) T"

definition matchPlaceholder :: "string \<Rightarrow> string \<Rightarrow> bool" where
  "matchPlaceholder T name =
     (let p = ''@'' @ T @ ''[''; ds = drop (length p) (butlast name)
      in HasPrefix name p \<and> length p < length name \<and> last name = CHR '']''
         \<and> ds \<noteq> [] \<and> list_all isDigit ds)"

definition literalRegexp :: regexp where
  "literalRegexp expr =
     (let T = slice 2 (length expr - 10) expr
      in if literalType T \<and> expr = placeholderExpr T then Some (matchPlaceholder T) else None)"

section \<open>Example trees\<close>

definition emptySection :: Section where
  "emptySection = \<lparr>Section.Name = [], Section.Type = [], Options = []\<rparr>"

definition emptyOption :: Option where
  "emptyOption = \<lparr>Option.Name = [], Values = [], Option.Type = TypeList\<rparr>"

definition mkStore :: "Section list \<Rightarrow> Option list \<Rightarrow> store" where
  "mkStore secs opts =
     \<lparr>sections = (\<lambda>r. if r < length secs then secs ! r else emptySection),
      options = (\<lambda>r. if r < length opts then opts ! r else emptyOption)\<rparr>"

definition mkConfig :: "ref list \<Rightarrow> Config" where
  "mkConfig secs = \<lparr>Config.Name = ''example'', Sections = secs, tainted = False\<rparr>"

text \<open>
  A store with the sections and options of a small file, and further objects that are
  in no config until a test puts them there.
\<close>

definition exStore :: store where
  "exStore = mkStore
     [\<lparr>Section.Name = [], Section.Type = ''foo'', Options = [0, 1]\<rparr>,
      \<lparr>Section.Name = ''lan'', Section.Type = ''interface'', Options = [2]\<rparr>,
      \<lparr>Section.Name = [], Section.Type = ''foo'', Options = []\<rparr>,
      \<lparr>Section.Name = [], Section.Type = ''foo'', Options = [3]\<rparr>,
      \<lparr>Section.Name = ''@foo[1]'', Section.Type = ''foo'', Options = []\<rparr>,
      \<lparr>Section.Name = [], Section.Type = ''a]'', Options = []\<rparr>,
      \<lparr>Section.Name = ''lan'', Section.Type = ''interface'', Options = [4, 5]\<rparr>,
      \<lparr>Section.Name = ''wan'', Section.Type = ''interface'', Options = []\<rparr>]
     [\<lparr>Option.Name = ''pos'', Values = [''3''], Option.Type = TypeOption\<rparr>,
      \<lparr>Option.Name = ''list'', Values = [''0'', ''30''], Option.Type = TypeList\<rparr>,
      \<lparr>Option.Name = ''ifname'', Values = [''eth0''], Option.Type = TypeOption\<rparr>,
      \<lparr>Option.Name = ''unset'', Values = [], Option.Type = TypeOption\<rparr>,
      \<lparr>Option.Name = ''ifname'', Values = [''eth0'', ''eth1''], Option.Type = TypeOption\<rparr>,
      \<lparr>Option.Name = ''proto'', Values = [''dhcp''], Option.Type = TypeOption\<rparr>]"

definition exConfig :: Config where
  "exConfig = mkConfig [0, 1, 2]"

lemmas ex_defs = exStore_def exConfig_def mkStore_def mkConfig_def

lemmas parse_defs =
  unmangleSectionName_def slice_def parseSigned_def isDigit_def maxInt_def minInt_def

section \<open>Merging values\<close>

lemma MergeValues_loop_filter:
  "MergeValues_loop have o' vs = o'\<lparr>Values := Values o' @ filter (\<lambda>v. v \<notin> have) vs\<rparr>"
  by (induction vs arbitrary: o') (simp_all add: AddValue_def)

lemma MergeValues_filter:
  "MergeValues o' vs = o'\<lparr>Values := Values o' @ filter (\<lambda>v. v \<notin> set (Values o')) vs\<rparr>"
  by (simp add: MergeValues_def MergeValues_loop_filter)

text \<open>
  C4 (the code at the failing input): \<open>MergeValues\<close> tests an incoming value against the
  values the option had before the call only. Merging \<open>30, 30\<close> into a list option that
  holds \<open>0\<close> appends \<open>30\<close> twice, so the result holds a duplicate although the option
  had none before; the claim says that no value is ever duplicated.
\<close>

theorem MergeValues_repeats_incoming_duplicate:
  "MergeValues \<lparr>Option.Name = ''list'', Values = [''0''], Option.Type = TypeList\<rparr> [''30'', ''30'']
     = \<lparr>Option.Name = ''list'', Values = [''0'', ''30'', ''30''], Option.Type = TypeList\<rparr>"
  by (simp add: MergeValues_def AddValue_def)

section \<open>Parsing selectors\<close>

text \<open>
  C3 (the code at the failing inputs): \<open>unmangleSectionName\<close> never tests that the last
  character is \<open>]\<close>, and it takes an opening bracket at position 1 when the index has two
  characters or more. It returns without an error on \<open>@a[0x\<close>, which has no closing
  bracket, and on \<open>@[12]\<close>, which has an empty type; the claim says that it succeeds
  exactly on the strings \<open>@TYPE[INDEX]\<close> with a type of one or more characters.
\<close>

theorem unmangleSectionName_accepts_malformed:
  "unmangleSectionName ''@a[0x'' = (''a'', 0, None) \<and>
   unmangleSectionName ''@[12]'' = ([], 12, None)"
  by (simp add: unmangleSectionName_def slice_def parseSigned_def isDigit_def maxInt_def minInt_def)

section \<open>Lookup drops the error of a selector\<close>

text \<open>
  C10: when a name starts with \<open>@\<close> and either does not parse as a selector or parses
  to an index outside the range of its type, \<open>getUnnamed\<close> returns an error with a nil
  section, and \<open>Config.Get\<close> returns nil alone: the value a lookup that finds nothing
  returns.
\<close>

theorem Config_Get_drops_selector_error:
  assumes "HasPrefix name ''@''"
    and "unmangleSectionName name = (typ, idx, perr)"
    and "perr \<noteq> None \<or> idx < - count st c typ \<or> count st c typ \<le> idx"
  shows "Config_Get st c name = None \<and> (\<exists>err. getUnnamed st c name = (None, Some err))"
  using assms
  by (auto simp: Config_Get_def getUnnamed_def Let_def split: prod.splits option.splits if_splits)

theorem Config_Get_drops_selector_error_witness:
  "HasPrefix ''@foo[7]'' ''@'' \<and> unmangleSectionName ''@foo[7]'' = (''foo'', 7, None)
   \<and> count exStore exConfig ''foo'' \<le> 7
   \<and> Config_Get exStore exConfig ''@foo[7]'' = None
   \<and> getUnnamed exStore exConfig ''@foo[7]'' = (None, Some ErrUnnamedIndexOutOfBounds)
   \<and> HasPrefix ''@foo[x]'' ''@''
   \<and> unmangleSectionName ''@foo[x]'' = (''foo'', 0, Some (ErrIndexNotNumeric ErrSyntax))
   \<and> Config_Get exStore exConfig ''@foo[x]'' = None
   \<and> getUnnamed exStore exConfig ''@foo[x]'' = (None, Some (ErrIndexNotNumeric ErrSyntax))"
proof -
  have p: "unmangleSectionName ''@foo[7]'' = (''foo'', 7, None)"
    by (simp add: parse_defs)
  have q: "unmangleSectionName ''@foo[x]'' = (''foo'', 0, Some (ErrIndexNotNumeric ErrSyntax))"
    by (simp add: parse_defs)
  have c: "count exStore exConfig ''foo'' = 2"
    by (simp add: ex_defs count_def)
  have h: "HasPrefix ''@foo[7]'' ''@''" and k: "HasPrefix ''@foo[x]'' ''@''"
    by (simp_all add: HasPrefix_def)
  from Config_Get_drops_selector_error [OF h p, of exStore exConfig]
    Config_Get_drops_selector_error [OF k q, of exStore exConfig] c p q
  show ?thesis
    by (auto simp: h k getUnnamed_def)
qed

section \<open>Merging a section that the config does not hold\<close>

lemma index_loop_absent: "s \<notin> set secs \<Longrightarrow> index_loop st s i secs = Inl NotReached"
  by (induction secs arbitrary: i) auto

lemma sectionName_absent:
  "Section.Name (sections st s) = [] \<Longrightarrow> s \<notin> set (Sections c)
   \<Longrightarrow> sectionName st c s = Inl NotReached"
  by (simp add: sectionName_def index_def index_loop_absent)

lemma Merge_loop_absent:
  "sectionName st c s = Inl p \<Longrightarrow> secs \<noteq> [] \<Longrightarrow> Merge_loop st c s secs = Inl p"
  by (cases secs) simp_all

text \<open>
  C2 (the code at the failing input): the config holds the sections 0, 1 and 2; section
  3 is a new section without a name, of type \<open>foo\<close>. \<open>Config.Merge\<close> asks \<open>index\<close> for
  the position of the new section among the sections of the config, where it is not,
  and reaches the panic at the end of \<open>index\<close>. The claim says that the section is
  merged into the section with its identity key or appended.
\<close>

theorem Config_Merge_new_unnamed_section:
  "Config_Merge exStore exConfig 3 = Inl NotReached"
  by (simp add: ex_defs Config_Merge_def sectionName_def index_def)

text \<open>
  C5 (the code on the failing inputs): \<open>Config.Merge\<close> panics with "not reached" for
  every section without a name that is not among the sections of a config that has at
  least one section. The claim says that the mutation operations return normally on
  every argument.
\<close>

theorem Config_Merge_unnamed_panics:
  assumes "Section.Name (sections st s) = []"
    and "s \<notin> set (Sections c)"
    and "Sections c \<noteq> []"
  shows "Config_Merge st c s = Inl NotReached"
  using assms by (simp add: Config_Merge_def Merge_loop_absent sectionName_absent)

theorem Config_Merge_unnamed_panics_witness:
  "Section.Name (sections exStore 0) = [] \<and> 0 \<notin> set (Sections (mkConfig [1]))
   \<and> Sections (mkConfig [1]) \<noteq> []
   \<and> Config_Merge exStore (mkConfig [1]) 0 = Inl NotReached"
  using Config_Merge_unnamed_panics [of exStore 0 "mkConfig [1]"]
  by (simp add: ex_defs)

section \<open>Decimal numbers\<close>

declare formatDigits.simps [simp del]

lemma of_char_digitChar: "d < 10 \<Longrightarrow> (of_char (digitChar d) :: nat) = 48 + d"
  by (simp add: digitChar_def)

lemma isDigit_digitChar: "d < 10 \<Longrightarrow> isDigit (digitChar d)"
  by (simp add: isDigit_def of_char_digitChar)

lemma selectorChar_digitChar: "d < 10 \<Longrightarrow> selectorChar (digitChar d)"
proof -
  assume d: "d < 10"
  have "(of_char (digitChar d) :: nat) \<noteq> of_char CHR ''@''"
    "(of_char (digitChar d) :: nat) \<noteq> of_char CHR ''[''"
    "(of_char (digitChar d) :: nat) \<noteq> of_char CHR '']''"
    using d by (simp_all add: of_char_digitChar)
  then show ?thesis unfolding selectorChar_def by auto
qed

lemma sign_digitChar: "d < 10 \<Longrightarrow> digitChar d \<noteq> CHR ''-'' \<and> digitChar d \<noteq> CHR ''+''"
proof -
  assume d: "d < 10"
  have "(of_char (digitChar d) :: nat) \<noteq> of_char CHR ''-''"
    "(of_char (digitChar d) :: nat) \<noteq> of_char CHR ''+''"
    using d by (simp_all add: of_char_digitChar)
  then show ?thesis by auto
qed

lemma formatDigits_nonempty: "formatDigits n \<noteq> []"
  by (subst formatDigits.simps) simp

lemma formatDigits_isDigit: "list_all isDigit (formatDigits n)"
proof (induction n rule: formatDigits.induct)
  case (1 n)
  then show ?case
    by (subst formatDigits.simps) (simp add: isDigit_digitChar)
qed

lemma formatDigits_selectorChar: "list_all selectorChar (formatDigits n)"
proof (induction n rule: formatDigits.induct)
  case (1 n)
  then show ?case
    by (subst formatDigits.simps) (simp add: selectorChar_digitChar)
qed

lemma parseDigits_snoc:
  "parseDigits a (s @ [ch]) = parseDigits a s * 10 + (of_char ch - 48)"
  by (induction s arbitrary: a) simp_all

lemma parseDigits_formatDigits: "parseDigits 0 (formatDigits n) = n"
proof (induction n rule: formatDigits.induct)
  case (1 n)
  show ?case
  proof (cases "10 \<le> n")
    case True
    with 1 show ?thesis
      by (subst formatDigits.simps) (simp add: parseDigits_snoc of_char_digitChar)
  next
    case False
    then show ?thesis
      by (subst formatDigits.simps) (simp add: of_char_digitChar)
  qed
qed

lemma parseSigned_formatDigits:
  "parseSigned neg (formatDigits n) =
     (let v = (if neg then - int n else int n) in
      if maxInt < v then (maxInt, Some ErrRange)
      else if v < minInt then (minInt, Some ErrRange) else (v, None))"
  by (simp add: parseSigned_def formatDigits_nonempty formatDigits_isDigit parseDigits_formatDigits)

lemma hd_formatDigits: "\<exists>d s. d < 10 \<and> formatDigits n = digitChar d # s"
proof (induction n rule: formatDigits.induct)
  case (1 n)
  show ?case
  proof (cases "10 \<le> n")
    case True
    with 1 obtain d s where "d < 10" "formatDigits (n div 10) = digitChar d # s" by blast
    with True show ?thesis
      by (subst formatDigits.simps) auto
  next
    case False
    then have "n < 10 \<and> formatDigits n = digitChar n # []"
      by (subst formatDigits.simps) simp
    then show ?thesis by blast
  qed
qed

lemma Atoi_formatDigits: "Atoi (formatDigits n) = parseSigned False (formatDigits n)"
proof -
  obtain d s where d: "d < 10" and f: "formatDigits n = digitChar d # s"
    using hd_formatDigits by blast
  show ?thesis using sign_digitChar [OF d] by (simp add: f)
qed

lemma Atoi_Itoa: "minInt \<le> i \<Longrightarrow> i \<le> maxInt \<Longrightarrow> Atoi (Itoa i) = (i, None)"
  by (auto simp: Itoa_def Atoi_formatDigits parseSigned_formatDigits Let_def maxInt_def minInt_def)

lemma Atoi_Itoa_negative: "i < 0 \<Longrightarrow> fst (Atoi (Itoa i)) < 0"
  by (auto simp: Itoa_def Atoi_formatDigits parseSigned_formatDigits Let_def maxInt_def minInt_def)

lemma Itoa_selectorChar: "list_all selectorChar (Itoa i)"
  by (simp add: Itoa_def formatDigits_selectorChar selectorChar_def)

lemma Itoa_nonempty: "Itoa i \<noteq> []"
  by (simp add: Itoa_def formatDigits_nonempty)


lemma scanBrackets_plain:
  "list_all selectorChar xs \<Longrightarrow>
   scanBrackets ket i bra (xs @ rest) = scanBrackets ket (i + length xs) bra rest"
  by (induction xs arbitrary: i) (simp_all add: selectorChar_def)

lemma scanBrackets_selector:
  assumes T: "list_all selectorChar T" and I: "list_all selectorChar I"
  shows "scanBrackets (length T + length I + 2) 0 0 (CHR ''@'' # T @ CHR ''['' # I @ [CHR '']''])
         = Inr (Suc (length T))"
proof -
  let ?ket = "length T + length I + 2"
  have "scanBrackets ?ket 0 0 (CHR ''@'' # T @ CHR ''['' # I @ [CHR '']''])
        = scanBrackets ?ket 1 0 (T @ CHR ''['' # I @ [CHR '']''])"
    by simp
  also have "\<dots> = scanBrackets ?ket (1 + length T) 0 (CHR ''['' # I @ [CHR '']''])"
    by (rule scanBrackets_plain [OF T])
  also have "\<dots> = scanBrackets ?ket (Suc (1 + length T)) (1 + length T) (I @ [CHR '']''])"
    by simp
  also have "\<dots> = scanBrackets ?ket (Suc (1 + length T) + length I) (1 + length T) [CHR '']'']"
    by (rule scanBrackets_plain [OF I])
  also have "\<dots> = Inr (Suc (length T))"
    by simp
  finally show ?thesis .
qed

lemma unmangleSectionName_selector:
  assumes T: "list_all selectorChar T" and I: "list_all selectorChar I"
    and len: "2 \<le> length T + length I"
  shows "unmangleSectionName (CHR ''@'' # T @ CHR ''['' # I @ [CHR '']''])
         = (T, fst (Atoi I), map_option ErrIndexNotNumeric (snd (Atoi I)))"
proof -
  let ?name = "CHR ''@'' # T @ CHR ''['' # I @ [CHR '']'']"
  have l: "length ?name - 1 = length T + length I + 2" by simp
  have s1: "slice 1 (Suc (length T)) ?name = T"
    by (simp add: slice_def)
  have s2: "slice (Suc (length T) + 1) (length T + length I + 2) ?name = I"
    by (simp add: slice_def)
  show ?thesis
    unfolding unmangleSectionName_def Let_def l scanBrackets_selector [OF T I]
    using len s1 s2 by (simp add: case_prod_beta)
qed

lemma Num2PlaceholderSection_eq:
  "Num2PlaceholderSection T i = CHR ''@'' # T @ CHR ''['' # Itoa i @ [CHR '']'']"
  by (simp add: Num2PlaceholderSection_def)

lemma unmangleSectionName_placeholder:
  assumes "selectorType T" and "minInt \<le> i" and "i \<le> maxInt"
  shows "unmangleSectionName (Num2PlaceholderSection T i) = (T, i, None)"
proof -
  from assms(1) have T: "list_all selectorChar T" and "1 \<le> length T"
    by (simp_all add: selectorType_def Suc_le_eq)
  moreover have "1 \<le> length (Itoa i)"
    using Itoa_nonempty [of i] by (simp add: Suc_le_eq)
  ultimately have len: "2 \<le> length T + length (Itoa i)" by linarith
  show ?thesis
    using unmangleSectionName_selector [OF T Itoa_selectorChar len] assms(2,3)
    by (simp add: Num2PlaceholderSection_eq Atoi_Itoa)
qed

section \<open>Positional lookup\<close>

lemma count_loop_eq:
  "count_loop st typ n secs = n + int (length (sectionsOfType st typ secs))"
  by (induction secs arbitrary: n) (simp_all add: sectionsOfType_def)

lemma count_eq: "count st c typ = int (length (sectionsOfType st typ (Sections c)))"
  by (simp add: count_def count_loop_eq)

lemma getUnnamed_loop_eq:
  "getUnnamed_loop st typ idx n secs =
     (if n \<le> idx \<and> idx < n + int (length (sectionsOfType st typ secs))
      then Some (sectionsOfType st typ secs ! nat (idx - n)) else None)"
proof (induction secs arbitrary: n)
  case Nil
  then show ?case by (simp add: sectionsOfType_def)
next
  case (Cons sec secs)
  show ?case
  proof (cases "Section.Type (sections st sec) = typ")
    case False
    then show ?thesis using Cons by (simp add: sectionsOfType_def)
  next
    case True
    show ?thesis
    proof (cases "idx = n")
      case True
      with \<open>Section.Type (sections st sec) = typ\<close> show ?thesis
        by (simp add: sectionsOfType_def)
    next
      case False
      have "nat (idx - n) = Suc (nat (idx - (n + 1)))" if "n < idx"
        using that by linarith
      with False True Cons [of "n + 1"] show ?thesis
        by (auto simp: sectionsOfType_def)
    qed
  qed
qed

lemma HasPrefix_placeholder: "HasPrefix (Num2PlaceholderSection T i) ''@''"
  by (simp add: HasPrefix_def Num2PlaceholderSection_def)

lemma getUnnamed_placeholder:
  assumes "selectorType T" and "minInt \<le> i" and "i \<le> maxInt"
  shows "getUnnamed st c (Num2PlaceholderSection T i) =
     (let cnt = int (length (sectionsOfType st T (Sections c))) in
      if i < - cnt \<or> cnt \<le> i then (None, Some ErrUnnamedIndexOutOfBounds)
      else (Some (sectionsOfType st T (Sections c) ! nat (if i < 0 then i + cnt else i)), None))"
  by (auto simp: getUnnamed_def unmangleSectionName_placeholder [OF assms] count_eq
      getUnnamed_loop_eq Let_def)


text \<open>
  C1, as amended: let \<open>T\<close> be a type that can stand in a selector (one or more
  characters, none of them \<open>@\<close>, \<open>[\<close> or \<open>]\<close>) and \<open>cnt\<close> the number of sections of type
  \<open>T\<close>, a Go \<open>int\<close>. For \<open>0 \<le> i < cnt\<close>, \<open>Config.Get\<close> on \<open>@T[i]\<close> returns the
  \<open>(i+1)\<close>-th section of type \<open>T\<close> in the order of the config; for \<open>-cnt \<le> j < 0\<close>,
  \<open>Config.Get\<close> on \<open>@T[j]\<close> returns what it returns on \<open>@T[j+cnt]\<close>.
\<close>

theorem Config_Get_positional:
  assumes "selectorType T"
    and "cnt = int (length (sectionsOfType st T (Sections c)))"
    and "cnt \<le> maxInt"
    and "0 \<le> i" and "i < cnt"
    and "- cnt \<le> j" and "j < 0"
  shows "Config_Get st c (Num2PlaceholderSection T i) = Some (sectionsOfType st T (Sections c) ! nat i)
       \<and> Config_Get st c (Num2PlaceholderSection T j)
         = Config_Get st c (Num2PlaceholderSection T (j + cnt))"
proof -
  have i: "minInt \<le> i" "i \<le> maxInt" using assms by (simp_all add: minInt_def maxInt_def)
  have j: "minInt \<le> j" "j \<le> maxInt" using assms by (simp_all add: minInt_def maxInt_def)
  have k: "minInt \<le> j + cnt" "j + cnt \<le> maxInt"
    using assms by (simp_all add: minInt_def maxInt_def)
  have n: "int (length (sectionsOfType st T (Sections c))) = cnt"
    using assms(2) by simp
  have gi: "getUnnamed st c (Num2PlaceholderSection T i)
            = (Some (sectionsOfType st T (Sections c) ! nat i), None)"
    using assms(4,5) by (simp add: getUnnamed_placeholder [OF assms(1) i] Let_def n)
  have gj: "getUnnamed st c (Num2PlaceholderSection T j)
            = (Some (sectionsOfType st T (Sections c) ! nat (j + cnt)), None)"
    using assms(6,7) by (simp add: getUnnamed_placeholder [OF assms(1) j] Let_def n)
  have gk: "getUnnamed st c (Num2PlaceholderSection T (j + cnt))
            = (Some (sectionsOfType st T (Sections c) ! nat (j + cnt)), None)"
    using assms(6,7) by (simp add: getUnnamed_placeholder [OF assms(1) k] Let_def n)
  show ?thesis
    by (simp add: Config_Get_def HasPrefix_placeholder gi gj gk)
qed


theorem Config_Get_positional_witness:
  "selectorType ''foo'' \<and> sectionsOfType exStore ''foo'' (Sections exConfig) = [0, 2]
   \<and> Config_Get exStore exConfig ''@foo[1]'' = Some 2
   \<and> Config_Get exStore exConfig ''@foo[-1]'' = Config_Get exStore exConfig ''@foo[1]''"
proof -
  have t: "selectorType ''foo''" by (simp add: selectorType_def selectorChar_def)
  have s: "sectionsOfType exStore ''foo'' (Sections exConfig) = [0, 2]"
    by (simp add: ex_defs sectionsOfType_def)
  have c: "(2::int) = int (length (sectionsOfType exStore ''foo'' (Sections exConfig)))"
    by (simp add: s)
  have m: "(2::int) \<le> maxInt" by (simp add: maxInt_def)
  have n: "Num2PlaceholderSection ''foo'' 1 = ''@foo[1]''"
    "Num2PlaceholderSection ''foo'' (- 1) = ''@foo[-1]''"
    "Num2PlaceholderSection ''foo'' (- 1 + 2) = ''@foo[1]''"
    by code_simp+
  have "Config_Get exStore exConfig (Num2PlaceholderSection ''foo'' 1)
          = Some (sectionsOfType exStore ''foo'' (Sections exConfig) ! nat 1)
        \<and> Config_Get exStore exConfig (Num2PlaceholderSection ''foo'' (- 1))
          = Config_Get exStore exConfig (Num2PlaceholderSection ''foo'' (- 1 + 2))"
    by (rule Config_Get_positional [OF t c m]) simp_all
  then show ?thesis
    unfolding n s using t by simp
qed

text \<open>
  The claim as stated, for every type, fails at a type with a bracket in it: the config
  has one section, of type \<open>a]\<close>, and \<open>Config.Get\<close> on \<open>@a][0]\<close> returns nil, because
  the selector is refused for its closing bracket before the last position.
\<close>

theorem Config_Get_positional_counterexample:
  "sectionsOfType exStore ''a]'' (Sections (mkConfig [5])) = [5]
   \<and> Num2PlaceholderSection ''a]'' 0 = ''@a][0]''
   \<and> Config_Get exStore (mkConfig [5]) ''@a][0]'' = None"
proof -
  have "Num2PlaceholderSection ''a]'' 0 = ''@a][0]''" by code_simp
  then show ?thesis
    by (simp add: ex_defs sectionsOfType_def Config_Get_def HasPrefix_def getUnnamed_def
        unmangleSectionName_def)
qed


text \<open>
  C7, as amended: let \<open>T\<close> be a type that can stand in a selector, \<open>cnt\<close> the number of
  sections of type \<open>T\<close> and \<open>i\<close> a Go \<open>int\<close> with \<open>cnt \<le> i\<close> or \<open>i < -cnt\<close>. Then
  \<open>getUnnamed\<close> on \<open>@T[i]\<close> returns no section and the error
  \<open>ErrUnnamedIndexOutOfBounds\<close>.
\<close>

theorem getUnnamed_out_of_bounds:
  assumes "selectorType T" and "minInt \<le> i" and "i \<le> maxInt"
    and "cnt = int (length (sectionsOfType st T (Sections c)))"
    and "cnt \<le> i \<or> i < - cnt"
  shows "getUnnamed st c (Num2PlaceholderSection T i) = (None, Some ErrUnnamedIndexOutOfBounds)"
  using assms(4,5) by (auto simp: getUnnamed_placeholder [OF assms(1,2,3)] Let_def)

theorem getUnnamed_out_of_bounds_witness:
  "selectorType ''foo'' \<and> sectionsOfType exStore ''foo'' (Sections exConfig) = [0, 2]
   \<and> getUnnamed exStore exConfig ''@foo[2]'' = (None, Some ErrUnnamedIndexOutOfBounds)
   \<and> getUnnamed exStore exConfig ''@foo[-3]'' = (None, Some ErrUnnamedIndexOutOfBounds)"
proof -
  have t: "selectorType ''foo''" by (simp add: selectorType_def selectorChar_def)
  have s: "sectionsOfType exStore ''foo'' (Sections exConfig) = [0, 2]"
    by (simp add: ex_defs sectionsOfType_def)
  have c: "(2::int) = int (length (sectionsOfType exStore ''foo'' (Sections exConfig)))"
    by (simp add: s)
  have n: "Num2PlaceholderSection ''foo'' 2 = ''@foo[2]''"
    "Num2PlaceholderSection ''foo'' (- 3) = ''@foo[-3]''"
    by code_simp+
  have "getUnnamed exStore exConfig (Num2PlaceholderSection ''foo'' 2)
        = (None, Some ErrUnnamedIndexOutOfBounds)"
    by (rule getUnnamed_out_of_bounds [OF t _ _ c]) (simp_all add: minInt_def maxInt_def)
  moreover have "getUnnamed exStore exConfig (Num2PlaceholderSection ''foo'' (- 3))
        = (None, Some ErrUnnamedIndexOutOfBounds)"
    by (rule getUnnamed_out_of_bounds [OF t _ _ c]) (simp_all add: minInt_def maxInt_def)
  ultimately show ?thesis
    unfolding n s using t by simp
qed


text \<open>
  The claim as stated, for every type, fails at the type \<open>a]\<close>: the config has one
  section of that type, the index 1 is out of range, and \<open>getUnnamed\<close> on \<open>@a][1]\<close>
  returns the syntax error \<open>ErrMultipleCloseBrackets\<close>, not the range error.
\<close>

theorem getUnnamed_out_of_bounds_counterexample:
  "sectionsOfType exStore ''a]'' (Sections (mkConfig [5])) = [5]
   \<and> Num2PlaceholderSection ''a]'' 1 = ''@a][1]''
   \<and> getUnnamed exStore (mkConfig [5]) ''@a][1]'' = (None, Some ErrMultipleCloseBrackets)"
proof -
  have "Num2PlaceholderSection ''a]'' 1 = ''@a][1]''" by code_simp
  then show ?thesis
    by (simp add: ex_defs sectionsOfType_def getUnnamed_def unmangleSectionName_def)
qed

section \<open>Deleting sections\<close>

lemma mapGet_upd: "mapGet (m(k \<mapsto> v)) k' = (if k' = k then v else mapGet m k')"
  by (simp add: mapGet_def)

lemma mapGet_empty: "mapGet Map.empty k = 0"
  by (simp add: mapGet_def)

lemma mapGet_init: "mapGet (if m k = None then m(k \<mapsto> 0) else m) k' = mapGet m k'"
  by (auto simp: mapGet_def split: option.splits)

lemma upd_init: "(if m k = None then m(k \<mapsto> 0) else m)(k \<mapsto> v) = m(k \<mapsto> v)"
  by simp

lemma Del_loop_match:
  assumes "IsPlaceholderName re name (Section.Type (sections st sec)) = Inr True"
  shows "Del_loop re st name indexs i (sec # secs) =
     (if fst (snd (unmangleSectionName name)) = mapGet indexs (Section.Type (sections st sec))
      then Inr i
      else if Section.Name (sections st sec) = name then Inr i
      else Del_loop re st name
             (indexs(Section.Type (sections st sec)
                \<mapsto> mapGet indexs (Section.Type (sections st sec)) + 1))
             (Suc i) secs)"
  by (simp only: Del_loop.simps Let_def assms sum.case bool.case mapGet_init upd_init)

lemma Del_loop_no_match:
  assumes "IsPlaceholderName re name (Section.Type (sections st sec)) = Inr False"
  shows "Del_loop re st name indexs i (sec # secs) =
     (if Section.Name (sections st sec) = name then Inr i
      else Del_loop re st name indexs (Suc i) secs)"
  by (simp only: Del_loop.simps Let_def assms sum.case bool.case)

lemma IsPlaceholderName_cases:
  "re (placeholderExpr T) \<noteq> None \<Longrightarrow>
   IsPlaceholderName re name T = Inr True \<or> IsPlaceholderName re name T = Inr False"
  by (auto simp: IsPlaceholderName_def)



lemma Del_loop_nth:
  assumes "fst (snd (unmangleSectionName name)) = n"
    and "Section.Type (sections st a) = T"
    and "list_all (\<lambda>sec. IsPlaceholderName re name (Section.Type (sections st sec))
                          = Inr (Section.Type (sections st sec) = T)) (xs @ [a])"
    and "list_all (\<lambda>sec. Section.Name (sections st sec) \<noteq> name) xs"
    and "mapGet indexs T + int (length (sectionsOfType st T xs)) = n"
  shows "Del_loop re st name indexs i (xs @ a # ys) = Inr (i + length xs)"
  using assms(3,4,5)
proof (induction xs arbitrary: indexs i)
  case Nil
  then have m: "IsPlaceholderName re name (Section.Type (sections st a)) = Inr True"
    by (simp add: assms(2))
  from Nil have "mapGet indexs T = n" by (simp add: sectionsOfType_def)
  then show ?case
    unfolding append_Nil Del_loop_match [OF m] by (simp add: assms(1,2))
next
  case (Cons x xs)
  let ?ty = "Section.Type (sections st x)"
  have rest: "list_all (\<lambda>sec. IsPlaceholderName re name (Section.Type (sections st sec))
                          = Inr (Section.Type (sections st sec) = T)) (xs @ [a])"
    and names: "list_all (\<lambda>sec. Section.Name (sections st sec) \<noteq> name) xs"
    and name: "Section.Name (sections st x) \<noteq> name"
    and px: "IsPlaceholderName re name ?ty = Inr (?ty = T)"
    using Cons.prems by simp_all
  show ?case
  proof (cases "?ty = T")
    case True
    then have m: "IsPlaceholderName re name ?ty = Inr True" using px by simp
    have c: "mapGet indexs T + 1 + int (length (sectionsOfType st T xs)) = n"
      using Cons.prems(3) True by (simp add: sectionsOfType_def)
    then have ne: "n \<noteq> mapGet indexs T" by linarith
    have c': "mapGet (indexs(T \<mapsto> mapGet indexs T + 1)) T + int (length (sectionsOfType st T xs)) = n"
      using c by (simp add: mapGet_upd)
    show ?thesis
      unfolding append_Cons Del_loop_match [OF m]
      by (simp add: assms(1) True ne name Cons.IH [OF rest names c'])
  next
    case False
    then have m: "IsPlaceholderName re name ?ty = Inr False" using px by simp
    have c: "mapGet indexs T + int (length (sectionsOfType st T xs)) = n"
      using Cons.prems(3) False by (simp add: sectionsOfType_def)
    show ?thesis
      unfolding append_Cons Del_loop_no_match [OF m]
      by (simp add: name Cons.IH [OF rest names c])
  qed
qed

lemma removeAt_middle: "removeAt (length xs) (xs @ a # ys) = xs @ ys"
  by (simp add: removeAt_def)

lemma Config_Del_nth:
  assumes "fst (snd (unmangleSectionName name)) = n"
    and "Sections c = xs @ a # ys"
    and "int (length (sectionsOfType st T xs)) = n"
    and "Section.Type (sections st a) = T"
    and "list_all (\<lambda>sec. IsPlaceholderName re name (Section.Type (sections st sec))
                          = Inr (Section.Type (sections st sec) = T)) (xs @ [a])"
    and "list_all (\<lambda>sec. Section.Name (sections st sec) \<noteq> name) xs"
  shows "Config_Del re st c name = Inr (c\<lparr>Sections := xs @ ys\<rparr>)"
proof -
  have "mapGet Map.empty T + int (length (sectionsOfType st T xs)) = n"
    using assms(3) by (simp add: mapGet_empty)
  from Del_loop_nth [OF assms(1,4,5,6) this, of 0 ys]
  show ?thesis
    by (simp add: Config_Del_def assms(2) removeAt_middle)
qed

lemma second_of_type:
  assumes "2 \<le> length (sectionsOfType st T secs)"
  shows "\<exists>xs a ys b. secs = xs @ a # ys \<and> sectionsOfType st T xs = [b]
           \<and> Section.Type (sections st a) = T"
proof -
  let ?P = "\<lambda>sec. Section.Type (sections st sec) = T"
  from assms obtain b a rest where f: "filter ?P secs = b # a # rest"
    unfolding sectionsOfType_def
    by (cases "filter ?P secs"; cases "tl (filter ?P secs)") auto
  from filter_eq_ConsD [OF f] obtain us vs where 1: "secs = us @ b # vs"
    and 2: "\<forall>u\<in>set us. \<not> ?P u" and 3: "?P b" and 4: "a # rest = filter ?P vs"
    by blast
  from filter_eq_ConsD [OF 4 [symmetric]] obtain ws ys where 5: "vs = ws @ a # ys"
    and 6: "\<forall>u\<in>set ws. \<not> ?P u" and 7: "?P a"
    by blast
  have "secs = (us @ b # ws) @ a # ys" using 1 5 by simp
  moreover have "sectionsOfType st T (us @ b # ws) = [b]"
    using 2 3 6 by (simp add: sectionsOfType_def filter_empty_conv)
  ultimately show ?thesis using 7 by blast
qed

lemma placeholderExpr_eq:
  "placeholderExpr T = ''^@'' @ T @ [CHR 0x5C, CHR ''['', CHR ''('', CHR 0x5C, CHR ''d'', CHR ''+'',
      CHR '')'', CHR 0x5C, CHR '']'', CHR ''$'']"
  by (simp add: placeholderExpr_def)

lemma literalRegexp_placeholderExpr:
  "literalType T \<Longrightarrow> literalRegexp (placeholderExpr T) = Some (matchPlaceholder T)"
proof -
  assume l: "literalType T"
  have "slice 2 (length (placeholderExpr T) - 10) (placeholderExpr T) = T"
    by (simp add: placeholderExpr_eq slice_def)
  then show ?thesis
    by (simp add: literalRegexp_def Let_def l)
qed

lemma IsPlaceholderName_literal:
  "literalType T \<Longrightarrow> IsPlaceholderName literalRegexp name T = Inr (matchPlaceholder T name)"
  by (simp add: IsPlaceholderName_def literalRegexp_placeholderExpr)

lemma firstIndex_length: "firstIndex P xs \<le> length xs"
  by (induction xs) simp_all

lemma firstIndex_less_iff: "firstIndex P xs < length xs \<longleftrightarrow> list_ex P xs"
  by (induction xs) simp_all

lemma firstIndex_first:
  "firstIndex P xs < length xs \<Longrightarrow> P (xs ! firstIndex P xs) \<and> list_all (\<lambda>x. \<not> P x) (take (firstIndex P xs) xs)"
  by (induction xs) (auto split: if_splits)


lemma literalType_examples: "literalType ''foo''" "literalType ''interface''"
  by code_simp+

lemma ex_sections:
  "sections exStore 0 = \<lparr>Section.Name = [], Section.Type = ''foo'', Options = [0, 1]\<rparr>"
  "sections exStore 1 = \<lparr>Section.Name = ''lan'', Section.Type = ''interface'', Options = [2]\<rparr>"
  "sections exStore (Suc 0) = \<lparr>Section.Name = ''lan'', Section.Type = ''interface'', Options = [2]\<rparr>"
  "sections exStore 2 = \<lparr>Section.Name = [], Section.Type = ''foo'', Options = []\<rparr>"
  "sections exStore 3 = \<lparr>Section.Name = [], Section.Type = ''foo'', Options = [3]\<rparr>"
  "sections exStore 4 = \<lparr>Section.Name = ''@foo[1]'', Section.Type = ''foo'', Options = []\<rparr>"
  by (simp_all add: ex_defs)

lemma selectorType_foo: "selectorType ''foo''"
  by (simp add: selectorType_def selectorChar_def)


lemma IsPlaceholderName_examples:
  "IsPlaceholderName literalRegexp ''@foo[-1]'' ''foo'' = Inr False"
  "IsPlaceholderName literalRegexp ''@foo[-1]'' ''interface'' = Inr False"
  "IsPlaceholderName literalRegexp ''@foo[1]'' ''foo'' = Inr True"
  "IsPlaceholderName literalRegexp ''@foo[1]'' ''interface'' = Inr False"
  unfolding IsPlaceholderName_literal [OF literalType_examples(1)]
    IsPlaceholderName_literal [OF literalType_examples(2)]
  by code_simp+

lemma compiles_exConfig:
  "list_all (\<lambda>sec. literalRegexp (placeholderExpr (Section.Type (sections exStore sec))) \<noteq> None)
     [0, 1, 2]"
  by (simp add: ex_sections literalRegexp_placeholderExpr literalType_examples)








text \<open>
  C8, as amended: let the sections of the config be \<open>xs\<close>, \<open>a\<close> and \<open>ys\<close> in this order,
  where \<open>a\<close> has type \<open>T\<close> and exactly one section of \<open>xs\<close> has type \<open>T\<close>, so that \<open>a\<close> is
  the second-declared section of type \<open>T\<close>. Let \<open>T\<close> be a type that can stand in a
  selector, let the regexp package take \<open>@T[1]\<close> for a placeholder name of exactly the
  types equal to \<open>T\<close> among the types of \<open>xs\<close> and \<open>a\<close>, and let no section of \<open>xs\<close> have
  the name \<open>@T[1]\<close>. Then \<open>Config.Del\<close> on \<open>@T[1]\<close> removes \<open>a\<close> and leaves the other
  sections in their order; it does not write to the store.
\<close>

theorem Config_Del_second_of_type:
  assumes "selectorType T"
    and "Sections c = xs @ a # ys"
    and "sectionsOfType st T xs = [b]"
    and "Section.Type (sections st a) = T"
    and "list_all (\<lambda>sec. IsPlaceholderName re (Num2PlaceholderSection T 1) (Section.Type (sections st sec))
                          = Inr (Section.Type (sections st sec) = T)) (xs @ [a])"
    and "list_all (\<lambda>sec. Section.Name (sections st sec) \<noteq> Num2PlaceholderSection T 1) xs"
  shows "sectionsOfType st T (Sections c) ! 1 = a
       \<and> Config_Del re st c (Num2PlaceholderSection T 1) = Inr (c\<lparr>Sections := xs @ ys\<rparr>)"
proof -
  have p: "fst (snd (unmangleSectionName (Num2PlaceholderSection T 1))) = 1"
    using assms(1) by (simp add: unmangleSectionName_placeholder minInt_def maxInt_def)
  have n: "int (length (sectionsOfType st T xs)) = 1"
    by (simp add: assms(3))
  have "sectionsOfType st T (Sections c) = b # a # sectionsOfType st T ys"
    using assms(3,4) by (simp add: assms(2) sectionsOfType_def)
  then show ?thesis
    using Config_Del_nth [OF p assms(2) n assms(4,5,6)] by simp
qed

theorem Config_Del_second_of_type_witness:
  "selectorType ''foo'' \<and> Sections exConfig = [0, 1] @ 2 # []
   \<and> sectionsOfType exStore ''foo'' [0, 1] = [0]
   \<and> Num2PlaceholderSection ''foo'' 1 = ''@foo[1]''
   \<and> sectionsOfType exStore ''foo'' (Sections exConfig) ! 1 = 2
   \<and> Config_Del literalRegexp exStore exConfig ''@foo[1]'' = Inr (mkConfig [0, 1])"
proof -
  have n: "Num2PlaceholderSection ''foo'' 1 = ''@foo[1]''" by code_simp
  have d: "Sections exConfig = [0, 1] @ 2 # []" by (simp add: exConfig_def mkConfig_def)
  have f: "sectionsOfType exStore ''foo'' [0, 1] = [0]"
    by (simp add: sectionsOfType_def ex_sections)
  have "sectionsOfType exStore ''foo'' (Sections exConfig) ! 1 = 2
       \<and> Config_Del literalRegexp exStore exConfig (Num2PlaceholderSection ''foo'' 1)
         = Inr (exConfig\<lparr>Sections := [0, 1] @ []\<rparr>)"
    by (rule Config_Del_second_of_type [OF selectorType_foo d f])
      (simp_all add: n ex_sections IsPlaceholderName_examples)
  then show ?thesis
    using selectorType_foo d f n by (simp add: exConfig_def mkConfig_def)
qed


text \<open>
  The claim as stated fails on a config of two sections of type \<open>foo\<close> of which the first
  has the name \<open>@foo[1]\<close>: \<open>Config.Del\<close> on \<open>@foo[1]\<close> stops at the name and removes
  the first-declared section, section 4.
\<close>

theorem Config_Del_second_of_type_counterexample:
  "sectionsOfType exStore ''foo'' (Sections (mkConfig [4, 0])) = [4, 0]
   \<and> Config_Del literalRegexp exStore (mkConfig [4, 0]) ''@foo[1]'' = Inr (mkConfig [0])"
proof -
  have p: "unmangleSectionName ''@foo[1]'' = (''foo'', 1, None)"
    by (simp add: parse_defs)
  show ?thesis
    by (simp add: sectionsOfType_def Config_Del_def mkConfig_def ex_sections
        IsPlaceholderName_examples p mapGet_def removeAt_def)
qed

section \<open>Writing a config\<close>
















section \<open>What merging, parsing and deleting do otherwise\<close>

text \<open>
  \<open>MergeValues\<close> keeps the values of the option as they are and appends, in their order,
  the incoming values that the option did not have before the call; merging the same
  values a second time changes nothing.
\<close>

lemma MergeValues_appends_absent:
  "MergeValues o' vs = o'\<lparr>Values := Values o' @ filter (\<lambda>v. v \<notin> set (Values o')) vs\<rparr>
   \<and> MergeValues (MergeValues o' vs) vs = MergeValues o' vs"
proof -
  have 1: "MergeValues o' vs = o'\<lparr>Values := Values o' @ filter (\<lambda>v. v \<notin> set (Values o')) vs\<rparr>"
    by (rule MergeValues_filter)
  have "filter (\<lambda>v. v \<notin> set (Values o') \<and> v \<notin> set vs) vs = []"
    by (simp add: filter_empty_conv)
  then have "MergeValues (MergeValues o' vs) vs = MergeValues o' vs"
    unfolding 1 by (simp add: MergeValues_filter)
  with 1 show ?thesis by simp
qed


text \<open>
  The examples of the specification for the syntax errors of a selector.
\<close>

lemma unmangleSectionName_errors:
  "unmangleSectionName [] = ([], 0, Some ErrImplausibleSectionSelector)
   \<and> unmangleSectionName ''aa[0]'' = ([], 0, Some ErrMustStartWithAt)
   \<and> unmangleSectionName ''@@[0]'' = ([], 0, Some ErrMultipleAtSigns)
   \<and> unmangleSectionName ''@[[0]'' = ([], 0, Some ErrMultipleOpenBrackets)
   \<and> unmangleSectionName ''@][0]'' = ([], 0, Some ErrMultipleCloseBrackets)
   \<and> unmangleSectionName ''@aa0]'' = ([], 0, Some ErrInvalidSectionSelector)
   \<and> unmangleSectionName ''@a[b]'' = (''a'', 0, Some (ErrIndexNotNumeric ErrSyntax))"
  by (simp add: parse_defs)


text \<open>
  \<open>Config.Merge\<close> on a section whose name \<open>sectionName\<close> can compute, which is a section
  with a name or a section of the config: the section is merged into the first section
  of the config with the same name and that section is returned, the sections of the
  config staying as they are; when there is none, the section is appended.
\<close>

lemma index_loop_member: "s \<in> set secs \<Longrightarrow> \<exists>k. index_loop st s i secs = Inr k"
  by (induction secs arbitrary: i) auto

lemma sectionName_member:
  "sec \<in> set (Sections c) \<Longrightarrow> \<exists>key. sectionName st c sec = Inr key"
  using index_loop_member [of sec "Sections c" st 0]
  by (auto simp: sectionName_def index_def)

lemma Merge_loop_find:
  assumes "sectionName st c s = Inr sname"
    and "set secs \<subseteq> set (Sections c)"
  shows "Merge_loop st c s secs = Inr (find (\<lambda>sec. sectionName st c sec = Inr sname) secs)"
  using assms(2)
proof (induction secs)
  case Nil
  then show ?case by simp
next
  case (Cons sec secs)
  then obtain key where "sectionName st c sec = Inr key"
    using sectionName_member [of sec c st] by auto
  with Cons show ?case by (simp add: assms(1))
qed


lemma Config_Merge_by_key:
  assumes "sectionName st c s = Inr key"
  shows "Config_Merge st c s =
     (case find (\<lambda>sec. sectionName st c sec = Inr key) (Sections c) of
        Some sec \<Rightarrow> Inr (Merge_options st sec (Options (sections st s)), c, sec)
      | None \<Rightarrow> Inr (st, c\<lparr>Sections := Sections c @ [s]\<rparr>, s))"
  using Merge_loop_find [OF assms subset_refl]
  by (simp add: Config_Merge_def Config_Add_def split: option.splits)


lemma Itoa_examples: "Itoa 0 = ''0''" "Itoa 1 = ''1''"
  by code_simp+

lemma ex_sectionName:
  "sectionName exStore exConfig 0 = Inr ''@foo[0]''"
  "sectionName exStore exConfig 1 = Inr ''lan''"
  "sectionName exStore exConfig (Suc 0) = Inr ''lan''"
  "sectionName exStore exConfig 2 = Inr ''@foo[1]''"
  "sectionName exStore exConfig 4 = Inr ''@foo[1]''"
  "sectionName exStore exConfig 6 = Inr ''lan''"
  "sectionName exStore exConfig 7 = Inr ''wan''"
  by (simp_all add: sectionName_def index_def ex_defs Itoa_examples)


lemma Config_Merge_by_key_witness:
  "sectionName exStore exConfig 7 = Inr ''wan''
   \<and> Config_Merge exStore exConfig 7 = Inr (exStore, mkConfig [0, 1, 2, 7], 7)
   \<and> sectionName exStore exConfig 4 = Inr ''@foo[1]''
   \<and> Config_Merge exStore exConfig 4 = Inr (exStore, exConfig, 2)
   \<and> sectionName exStore exConfig 6 = Inr ''lan''
   \<and> (case Config_Merge exStore exConfig 6 of
         Inl p \<Rightarrow> False
       | Inr (st, c, sec) \<Rightarrow>
           sec = 1 \<and> c = exConfig \<and> Options (sections st 1) = [2, 5]
           \<and> Values (options st 2) = [''eth0'', ''eth1''])"
proof -
  have s: "Sections exConfig = [0, 1, 2]" by (simp add: exConfig_def mkConfig_def)
  have 1: "Config_Merge exStore exConfig 7 = Inr (exStore, mkConfig [0, 1, 2, 7], 7)"
    unfolding Config_Merge_by_key [OF ex_sectionName(7)]
    by (simp add: s ex_sectionName) (simp add: exConfig_def mkConfig_def)
  have 2: "Config_Merge exStore exConfig 4 = Inr (exStore, exConfig, 2)"
    unfolding Config_Merge_by_key [OF ex_sectionName(5)]
    by (simp add: s ex_sectionName) (simp add: ex_defs)
  have 3: "Config_Merge exStore exConfig 6 =
      Inr (Merge_options exStore 1 (Options (sections exStore 6)), exConfig, 1)"
    unfolding Config_Merge_by_key [OF ex_sectionName(6)]
    by (simp add: s ex_sectionName)
  have 4: "Options (sections (Merge_options exStore 1 (Options (sections exStore 6))) 1) = [2, 5]
    \<and> Values (options (Merge_options exStore 1 (Options (sections exStore 6))) 2) = [''eth0'', ''eth1'']"
    by (simp add: ex_defs Section_Merge_def Section_Add_def MergeValues_def AddValue_def)
  from 1 2 3 4 ex_sectionName show ?thesis by simp
qed

text \<open>
  \<open>Config.Del\<close> returns whenever the placeholder expressions of the section types
  compile.
\<close>

lemma Del_loop_total:
  "list_all (\<lambda>sec. re (placeholderExpr (Section.Type (sections st sec))) \<noteq> None) secs
   \<Longrightarrow> \<exists>k. Del_loop re st name indexs i secs = Inr k"
proof (induction secs arbitrary: indexs i)
  case Nil
  then show ?case by simp
next
  case (Cons sec secs)
  then have "re (placeholderExpr (Section.Type (sections st sec))) \<noteq> None"
    and rest: "list_all (\<lambda>sec. re (placeholderExpr (Section.Type (sections st sec))) \<noteq> None) secs"
    by simp_all
  then consider (match) "IsPlaceholderName re name (Section.Type (sections st sec)) = Inr True"
    | (no_match) "IsPlaceholderName re name (Section.Type (sections st sec)) = Inr False"
    using IsPlaceholderName_cases by blast
  then show ?case
  proof cases
    case match
    show ?thesis
      unfolding Del_loop_match [OF match] using Cons.IH [OF rest] by simp
  next
    case no_match
    show ?thesis
      unfolding Del_loop_no_match [OF no_match] using Cons.IH [OF rest] by simp
  qed
qed


lemma Config_Del_returns:
  assumes "list_all (\<lambda>sec. re (placeholderExpr (Section.Type (sections st sec))) \<noteq> None) (Sections c)"
  shows "\<exists>c'. Config_Del re st c name = Inr c'"
proof -
  from Del_loop_total [OF assms] obtain k
    where "Del_loop re st name Map.empty 0 (Sections c) = Inr k" by blast
  then show ?thesis by (simp add: Config_Del_def)
qed


lemma Config_Del_returns_witness:
  "list_all (\<lambda>sec. literalRegexp (placeholderExpr (Section.Type (sections exStore sec))) \<noteq> None)
     (Sections exConfig)
   \<and> (\<exists>c'. Config_Del literalRegexp exStore exConfig ''lan'' = Inr c')"
proof -
  have c: "list_all (\<lambda>sec. literalRegexp (placeholderExpr (Section.Type (sections exStore sec))) \<noteq> None)
             (Sections exConfig)"
    using compiles_exConfig by (simp add: exConfig_def mkConfig_def)
  from Config_Del_returns [OF c] c show ?thesis by blast
qed


text \<open>
  \<open>Config.Del\<close> on the selector of a type and an index \<open>n\<close> from 0 removes the section
  number \<open>n\<close> of that type, under the conditions of the theorem on the second section.
\<close>

lemma Config_Del_positional:
  assumes "selectorType T" and "0 \<le> n" and "n \<le> maxInt"
    and "Sections c = xs @ a # ys"
    and "int (length (sectionsOfType st T xs)) = n"
    and "Section.Type (sections st a) = T"
    and "list_all (\<lambda>sec. IsPlaceholderName re (Num2PlaceholderSection T n) (Section.Type (sections st sec))
                          = Inr (Section.Type (sections st sec) = T)) (xs @ [a])"
    and "list_all (\<lambda>sec. Section.Name (sections st sec) \<noteq> Num2PlaceholderSection T n) xs"
  shows "Config_Del re st c (Num2PlaceholderSection T n) = Inr (c\<lparr>Sections := xs @ ys\<rparr>)"
proof -
  have "minInt \<le> n" using assms(2) by (simp add: minInt_def)
  then have p: "fst (snd (unmangleSectionName (Num2PlaceholderSection T n))) = n"
    using assms(1,3) by (simp add: unmangleSectionName_placeholder)
  show ?thesis
    by (rule Config_Del_nth [OF p assms(4,5,6,7,8)])
qed


lemma Config_Del_positional_witness:
  "selectorType ''foo'' \<and> Sections exConfig = [] @ 0 # [1, 2]
   \<and> Num2PlaceholderSection ''foo'' 0 = ''@foo[0]''
   \<and> Config_Del literalRegexp exStore exConfig ''@foo[0]'' = Inr (mkConfig [1, 2])"
proof -
  have n: "Num2PlaceholderSection ''foo'' 0 = ''@foo[0]''" by code_simp
  have d: "Sections exConfig = [] @ 0 # [1, 2]" by (simp add: exConfig_def mkConfig_def)
  have m: "IsPlaceholderName literalRegexp ''@foo[0]'' ''foo'' = Inr True"
    unfolding IsPlaceholderName_literal [OF literalType_examples(1)] by code_simp
  have "Config_Del literalRegexp exStore exConfig (Num2PlaceholderSection ''foo'' 0)
        = Inr (exConfig\<lparr>Sections := [] @ [1, 2]\<rparr>)"
    by (rule Config_Del_positional [OF selectorType_foo _ _ d])
      (simp_all add: n m ex_sections sectionsOfType_def maxInt_def)
  then show ?thesis
    using selectorType_foo d n by (simp add: exConfig_def mkConfig_def)
qed

end
